theory Spec2Isabelle
  imports Main "HOL-Library.Word" "HOL-Library.AList" "HOL-Library.Sublist"
begin

section \<open>JavaScript values\<close>

text \<open>
  The utility module \<^verbatim>\<open>src/unnamed/part_001\<close> inspects arbitrary JavaScript values
  through \<^verbatim>\<open>typeof\<close>, \<^verbatim>\<open>Array.isArray\<close>, \<^verbatim>\<open>Object.keys\<close>, \<^verbatim>\<open>Object.entries\<close>,
  \<^verbatim>\<open>String.prototype.trim\<close>, strict equality with the empty string and truthiness.
  A value is modelled by exactly what these operations observe.

  A string is its sequence of UTF-16 code units. A number is NaN, an infinity or a
  finite double, written sign, mantissa and binary exponent (so that both zeros exist).
  An object that is neither null nor an array is the list of its own enumerable
  string-keyed properties, in the order \<^verbatim>\<open>Object.entries\<close> lists them; this covers
  plain objects and every other object (dates, maps, boxed primitives), of which the
  functions below see nothing else.
\<close>

type_synonym jsstring = "16 word list"

datatype jsnumber =
    JNaN
  | JInfinity bool
  | JFinite bool nat int

datatype jsval =
    JUndefined
  | JNull
  | JBool bool
  | JNum jsnumber
  | JBigInt int
  | JStr jsstring
  | JSymbol jsstring
  | JFunction jsstring
  | JArr "jsval list"
  | JObj "(jsstring \<times> jsval) list"

datatype jstype =
    TyUndefined | TyObject | TyBoolean | TyNumber | TyBigint | TyString | TySymbol | TyFunction

datatype jserror = TypeError

fun typeof :: "jsval \<Rightarrow> jstype" where
  "typeof JUndefined = TyUndefined"
| "typeof JNull = TyObject"
| "typeof (JBool b) = TyBoolean"
| "typeof (JNum n) = TyNumber"
| "typeof (JBigInt i) = TyBigint"
| "typeof (JStr s) = TyString"
| "typeof (JSymbol d) = TySymbol"
| "typeof (JFunction f) = TyFunction"
| "typeof (JArr xs) = TyObject"
| "typeof (JObj ps) = TyObject"

fun isArray :: "jsval \<Rightarrow> bool" where
  "isArray (JArr xs) = True"
| "isArray v = False"

text \<open>ToBoolean: the falsy values are undefined, null, false, both zeros, NaN, the
  BigInt zero and the empty string.\<close>

fun truthy :: "jsval \<Rightarrow> bool" where
  "truthy JUndefined = False"
| "truthy JNull = False"
| "truthy (JBool b) = b"
| "truthy (JNum JNaN) = False"
| "truthy (JNum (JInfinity s)) = True"
| "truthy (JNum (JFinite s m e)) = (m \<noteq> 0)"
| "truthy (JBigInt i) = (i \<noteq> 0)"
| "truthy (JStr s) = (s \<noteq> [])"
| "truthy (JSymbol d) = True"
| "truthy (JFunction f) = True"
| "truthy (JArr xs) = True"
| "truthy (JObj ps) = True"

text \<open>The code units \<^verbatim>\<open>trim\<close> strips: ECMAScript's WhiteSpace (tab, vertical tab,
  form feed, space, no-break space, the byte order mark and the Unicode space
  separators) and LineTerminator (line feed, carriage return, line and paragraph
  separator).\<close>

definition isWhiteSpace :: "16 word \<Rightarrow> bool" where
  "isWhiteSpace c =
     (c = 0x0009 \<or> c = 0x000A \<or> c = 0x000B \<or> c = 0x000C \<or> c = 0x000D \<or> c = 0x0020
      \<or> c = 0x00A0 \<or> c = 0x1680 \<or> (0x2000 \<le> c \<and> c \<le> 0x200A)
      \<or> c = 0x2028 \<or> c = 0x2029 \<or> c = 0x202F \<or> c = 0x205F \<or> c = 0x3000
      \<or> c = 0xFEFF)"

definition trim :: "jsstring \<Rightarrow> jsstring" where
  "trim s = rev (dropWhile isWhiteSpace (rev (dropWhile isWhiteSpace s)))"

text \<open>Decimal digits of an array index, as code units (the keys of an array or a
  string are its indices).\<close>

fun decimal :: "nat \<Rightarrow> jsstring" where
  "decimal n = (if n < 10 then [of_nat (48 + n)] else decimal (n div 10) @ [of_nat (48 + n mod 10)])"

declare decimal.simps [simp del]

text \<open>\<^verbatim>\<open>Object.keys\<close> and \<^verbatim>\<open>Object.entries\<close> convert their argument with ToObject,
  which throws a TypeError on undefined and null; a string is boxed and has its indices
  as keys, the other primitives have no own enumerable property.\<close>

fun Object_entries :: "jsval \<Rightarrow> jserror + (jsstring \<times> jsval) list" where
  "Object_entries JUndefined = Inl TypeError"
| "Object_entries JNull = Inl TypeError"
| "Object_entries (JObj ps) = Inr ps"
| "Object_entries (JArr xs) = Inr (zip (map decimal [0..<length xs]) xs)"
| "Object_entries (JStr s) = Inr (zip (map decimal [0..<length s]) (map (\<lambda>c. JStr [c]) s))"
| "Object_entries v = Inr []"

definition Object_keys :: "jsval \<Rightarrow> jserror + jsstring list" where
  "Object_keys v = (case Object_entries v of Inl e \<Rightarrow> Inl e | Inr ps \<Rightarrow> Inr (map fst ps))"

section \<open>The object utilities of \<^verbatim>\<open>src/unnamed/part_001\<close>\<close>

text \<open>
  \<^verbatim>\<open>
  function emptyStrToUndefined(value) {
    const trimmed = typeof(value) === "string" && value.trim();
    return trimmed === ""
      ? undefined
      : value;
  }
  \<close>
  \<^verbatim>\<open>trimmed\<close> is \<^verbatim>\<open>false\<close> for a value that is not a string, and the trimmed string
  otherwise.
\<close>

definition emptyStrToUndefined :: "jsval \<Rightarrow> jsval" where
  "emptyStrToUndefined v =
     (let trimmed = (if typeof v = TyString then (case v of JStr s \<Rightarrow> JStr (trim s) | _ \<Rightarrow> v)
                     else JBool False)
      in if trimmed = JStr [] then JUndefined else v)"

text \<open>
  \<^verbatim>\<open>
  function emptyObjectToUndefined(value) {
    if (typeof(value) !== "object" || Array.isArray(value)) {
      return value;
    }
    if (!Object.keys(value).length) {
      return undefined;
    }
    const reduction = Object.entries(value)
      .reduce((reduction, [ key, value ]) => {
        if (!emptyStrToUndefined(value)) {
          return reduction;
        }
        return { ...reduction, [key]: value };
      }, {});
    return Object.keys(reduction).length
      ? reduction
      : undefined;
  }
  \<close>
  The object literal \<^verbatim>\<open>{ ...reduction, [key]: value }\<close> copies the properties of the
  accumulator in order and then defines \<^verbatim>\<open>key\<close>: an existing key keeps its place and
  takes the new value, a new key is added last, which is \<^const>\<open>AList.update\<close>.
\<close>

definition reduce_step :: "(jsstring \<times> jsval) list \<Rightarrow> jsstring \<times> jsval \<Rightarrow> (jsstring \<times> jsval) list" where
  "reduce_step reduction kv =
     (case kv of (key, v) \<Rightarrow>
        if \<not> truthy (emptyStrToUndefined v) then reduction
        else AList.update key v reduction)"

definition emptyObjectToUndefined :: "jsval \<Rightarrow> jserror + jsval" where
  "emptyObjectToUndefined v =
     (if typeof v \<noteq> TyObject \<or> isArray v then Inr v
      else (case Object_keys v of
        Inl e \<Rightarrow> Inl e
      | Inr ks \<Rightarrow>
          if length ks = 0 then Inr JUndefined
          else (case Object_entries v of
            Inl e \<Rightarrow> Inl e
          | Inr es \<Rightarrow>
              (let reduction = foldl reduce_step [] es
               in (case Object_keys (JObj reduction) of
                    Inl e \<Rightarrow> Inl e
                  | Inr rks \<Rightarrow> Inr (if length rks \<noteq> 0 then JObj reduction else JUndefined))))))"

section \<open>The Stripe customer search of \<^verbatim>\<open>src/unnamed/part_000\<close>\<close>

text \<open>
  The action's string props are optional: an unset prop is undefined (\<^const>\<open>None\<close>), and
  a falsy prop is an unset one or the empty string. String literals of the source are
  written as Isabelle strings and read as code units by \<open>lit\<close>.
\<close>

definition lit :: "string \<Rightarrow> jsstring" where
  "lit s = map of_char s"

record props =
  query :: "jsstring option"
  email :: "jsstring option"
  emailDomain :: "jsstring option"
  createdAfter :: "jsstring option"
  createdBefore :: "jsstring option"

definition prop_truthy :: "jsstring option \<Rightarrow> bool" where
  "prop_truthy p = (case p of None \<Rightarrow> False | Some s \<Rightarrow> s \<noteq> [])"

text \<open>
  \<^verbatim>\<open>
  convertDateToTimestamp(dateStr) {
    if (!dateStr) return null;
    const date = new Date(`${dateStr}T00:00:00Z`);
    return Math.floor(date.getTime() / 1000);
  }
  \<close>
  \<^verbatim>\<open>new Date(string)\<close> is the platform's date parser, a parameter \<open>Date_parse\<close> of the
  model: the time value of the string in milliseconds, an integer, or \<^const>\<open>None\<close> for
  an invalid date, whose \<^verbatim>\<open>getTime()\<close> is NaN. A time value is at most 8.64e15 in
  magnitude, where the double division by 1000 followed by \<^verbatim>\<open>Math.floor\<close> is the
  integer floor division; NaN stays NaN. So the result is null, NaN or an integer.
\<close>

datatype timestamp = TsNull | TsNaN | TsNum int

fun ts_truthy :: "timestamp \<Rightarrow> bool" where
  "ts_truthy TsNull = False"
| "ts_truthy TsNaN = False"
| "ts_truthy (TsNum n) = (n \<noteq> 0)"

definition convertDateToTimestamp :: "(jsstring \<Rightarrow> int option) \<Rightarrow> jsstring option \<Rightarrow> timestamp" where
  "convertDateToTimestamp Date_parse dateStr =
     (if \<not> prop_truthy dateStr then TsNull
      else (case Date_parse (the dateStr @ lit ''T00:00:00Z'') of
              None \<Rightarrow> TsNaN
            | Some t \<Rightarrow> TsNum (t div 1000)))"

text \<open>The text a template literal gives a timestamp: Number's ToString on an integer
  below 1e21 in magnitude is its decimal numeral.\<close>

fun ts_toString :: "timestamp \<Rightarrow> jsstring" where
  "ts_toString TsNull = lit ''null''"
| "ts_toString TsNaN = lit ''NaN''"
| "ts_toString (TsNum n) = (if n < 0 then lit ''-'' @ decimal (nat (- n)) else decimal (nat n))"

text \<open>\<^verbatim>\<open>s.replace(/"/g, "\\\"")\<close>: every double quote becomes a backslash and a double
  quote.\<close>

definition escapeQuotes :: "jsstring \<Rightarrow> jsstring" where
  "escapeQuotes s = concat (map (\<lambda>c. if c = 0x22 then [0x5C, 0x22] else [c]) s)"

fun join :: "jsstring \<Rightarrow> jsstring list \<Rightarrow> jsstring" where
  "join sep [] = []"
| "join sep [x] = x"
| "join sep (x # y # ys) = x @ sep @ join sep (y # ys)"

text \<open>
  \<^verbatim>\<open>
  buildSearchQuery() {
    const queryParts = [];
    if (this.query) {
      return this.query;
    }
    if (this.email) {
      const escapedEmail = this.email.replace(/"/g, "\\\"");
      queryParts.push(`email="${escapedEmail}"`);
    }
    if (this.emailDomain) {
      const escapedDomain = this.emailDomain.replace(/"/g, "\\\"");
      queryParts.push(`email~"${escapedDomain}"`);
    }
    const afterTimestamp = this.convertDateToTimestamp(this.createdAfter);
    if (afterTimestamp) {
      queryParts.push(`created>${afterTimestamp}`);
    }
    const beforeTimestamp = this.convertDateToTimestamp(this.createdBefore);
    if (beforeTimestamp) {
      queryParts.push(`created<${beforeTimestamp}`);
    }
    return queryParts.join(" AND ");
  }
  \<close>
  \<open>queryParts\<close> is the array as it stands at the final \<^verbatim>\<open>join\<close>, each \<^verbatim>\<open>push\<close> an
  append.
\<close>

definition queryParts :: "(jsstring \<Rightarrow> int option) \<Rightarrow> props \<Rightarrow> jsstring list" where
  "queryParts Date_parse this =
     (let parts0 = [];
          parts1 = (if prop_truthy (email this)
                    then parts0 @ [lit ''email='' @ [0x22] @ escapeQuotes (the (email this)) @ [0x22]]
                    else parts0);
          parts2 = (if prop_truthy (emailDomain this)
                    then parts1 @ [lit ''email~'' @ [0x22] @ escapeQuotes (the (emailDomain this)) @ [0x22]]
                    else parts1);
          afterTimestamp = convertDateToTimestamp Date_parse (createdAfter this);
          parts3 = (if ts_truthy afterTimestamp
                    then parts2 @ [lit ''created>'' @ ts_toString afterTimestamp]
                    else parts2);
          beforeTimestamp = convertDateToTimestamp Date_parse (createdBefore this);
          parts4 = (if ts_truthy beforeTimestamp
                    then parts3 @ [lit ''created<'' @ ts_toString beforeTimestamp]
                    else parts3)
      in parts4)"

definition buildSearchQuery :: "(jsstring \<Rightarrow> int option) \<Rightarrow> props \<Rightarrow> jsstring" where
  "buildSearchQuery Date_parse this =
     (if prop_truthy (query this) then the (query this)
      else join (lit '' AND '') (queryParts Date_parse this))"

text \<open>
  \<^verbatim>\<open>run\<close> builds the query and throws "Please provide at least one search parameter"
  when it is empty, before it calls the Stripe SDK with it; \<open>run_query\<close> is \<^verbatim>\<open>run\<close> up to
  that call.
\<close>

datatype run_error = Error string

definition run_query :: "(jsstring \<Rightarrow> int option) \<Rightarrow> props \<Rightarrow> run_error + jsstring" where
  "run_query Date_parse this =
     (let q = buildSearchQuery Date_parse this
      in if q = [] then Inl (Error ''Please provide at least one search parameter'') else Inr q)"

text \<open>
  One date parser, for concrete evaluations: the ECMAScript date-time format
  \<^verbatim>\<open>YYYY-MM-DDT00:00:00Z\<close> with a month from 01 to 12 and a day that the month has, read
  as UTC, and an invalid date for every other string.
\<close>

definition digit_val :: "16 word \<Rightarrow> nat option" where
  "digit_val c = (if 0x30 \<le> c \<and> c \<le> 0x39 then Some (unat c - 48) else None)"

fun digits_val :: "jsstring \<Rightarrow> nat option" where
  "digits_val [] = Some 0"
| "digits_val (c # cs) =
     (case (digit_val c, digits_val cs) of
        (Some d, Some r) \<Rightarrow> Some (d * 10 ^ length cs + r)
      | _ \<Rightarrow> None)"

definition is_leap :: "nat \<Rightarrow> bool" where
  "is_leap y = (y mod 4 = 0 \<and> (y mod 100 \<noteq> 0 \<or> y mod 400 = 0))"

definition days_in_month :: "nat \<Rightarrow> nat \<Rightarrow> nat" where
  "days_in_month y m =
     (if m = 2 then (if is_leap y then 29 else 28)
      else if m = 4 \<or> m = 6 \<or> m = 9 \<or> m = 11 then 30 else 31)"

definition days_from_civil :: "nat \<Rightarrow> nat \<Rightarrow> nat \<Rightarrow> int" where
  "days_from_civil y m d =
     (let y' = int y - (if m \<le> 2 then 1 else 0);
          era = y' div 400;
          yoe = y' - era * 400;
          mp = (int m + 9) mod 12;
          doy = (153 * mp + 2) div 5 + int d - 1;
          doe = yoe * 365 + yoe div 4 - yoe div 100 + doy
      in era * 146097 + doe - 719468)"

definition Date_parse_utc :: "jsstring \<Rightarrow> int option" where
  "Date_parse_utc s =
     (if length s = 20 \<and> s ! 4 = 0x2D \<and> s ! 7 = 0x2D \<and> drop 10 s = lit ''T00:00:00Z'' then
        (case (digits_val (take 4 s), digits_val (take 2 (drop 5 s)), digits_val (take 2 (drop 8 s))) of
           (Some y, Some m, Some d) \<Rightarrow>
             if 1 \<le> m \<and> m \<le> 12 \<and> 1 \<le> d \<and> d \<le> days_in_month y m
             then Some (days_from_civil y m d * 86400000)
             else None
         | _ \<Rightarrow> None)
      else None)"

section \<open>The Destination Delivery subsystem\<close>

text \<open>
  Modelled from the spec: the Emission Buffer, Batch Accumulator, Delivery Dispatcher
  and Delivery Worker of sections 3 to 7 of the specification. The repository's sources
  hold no code of this subsystem, only documentation of its callers
  (\<^verbatim>\<open>$.send.http\<close> and the other destinations); the definitions of this section follow
  the specification's words. What the specification leaves open is a parameter, the
  fields of \<open>env\<close>: which payloads are serializable, which destination types are known,
  which configs have their required fields, how a Destination Key is derived, the default
  policy of a destination type, when the open-batch map is over its ceiling, and the
  bound on delivery attempts.
\<close>

datatype delivery_mode = Immediate | Batched

record policy =
  maxBatchSize :: nat
  maxWaitTimeMs :: nat
  deliveryMode :: delivery_mode

record ('t, 'c, 'p) event_record =
  recordId :: nat
  executionId :: nat
  destinationType :: 't
  destinationConfig :: 'c
  payload :: 'p
  enqueuedAt :: nat

datatype batch_state = Accumulating | Ready | Flushing | Delivered | ExhaustedFailed

text \<open>Modelled from the spec: a Batch of section 3; \<open>attempts\<close> is the number of
  the Delivery Attempts made for it.\<close>

record ('t, 'c, 'p, 'k) batch =
  destinationKey :: 'k
  batchPolicy :: policy
  records :: "('t, 'c, 'p) event_record list"
  state :: batch_state
  createdAt :: nat
  flushDeadline :: nat
  attempts :: nat

record ('t, 'c, 'p, 'k) env =
  serializable :: "'p \<Rightarrow> bool"
  knownType :: "'t \<Rightarrow> bool"
  hasRequiredFields :: "'t \<Rightarrow> 'c \<Rightarrow> bool"
  destinationKeyOf :: "'t \<Rightarrow> 'c \<Rightarrow> 'k"
  defaultPolicy :: "'t \<Rightarrow> policy"
  overCeiling :: "('t, 'c, 'p, 'k) batch list \<Rightarrow> bool"
  maxAttempts :: nat

text \<open>
  Modelled from the spec: the state of the subsystem: the open Batch of each
  Destination Key (at most one per key), the Batches handed to the Dispatcher that have no terminal outcome yet, in the
  order of their hand-off (each Ready, that is queued, or Flushing), and the Batches
  reported with a terminal outcome, in the order of the reports.
\<close>

record ('t, 'c, 'p, 'k) system =
  openBatches :: "('t, 'c, 'p, 'k) batch list"
  dispatched :: "('t, 'c, 'p, 'k) batch list"
  reported :: "('t, 'c, 'p, 'k) batch list"
  nextId :: nat

definition init :: "('t, 'c, 'p, 'k) system" where
  "init = \<lparr>openBatches = [], dispatched = [], reported = [], nextId = 0\<rparr>"

subsection \<open>Delivery Dispatcher\<close>

text \<open>Modelled from the spec: admission control of section 4.3: when no Batch of the key is
  Flushing, the oldest queued Batch of the key starts flushing; otherwise nothing starts.\<close>

fun start_first :: "'k \<Rightarrow> ('t, 'c, 'p, 'k) batch list \<Rightarrow> ('t, 'c, 'p, 'k) batch list" where
  "start_first k [] = []"
| "start_first k (b # bs) =
     (if destinationKey b = k \<and> state b = Ready then b\<lparr>state := Flushing\<rparr> # bs
      else b # start_first k bs)"

definition is_flushing :: "'k \<Rightarrow> ('t, 'c, 'p, 'k) batch list \<Rightarrow> bool" where
  "is_flushing k bs = list_ex (\<lambda>b. destinationKey b = k \<and> state b = Flushing) bs"

definition admit :: "'k \<Rightarrow> ('t, 'c, 'p, 'k) batch list \<Rightarrow> ('t, 'c, 'p, 'k) batch list" where
  "admit k bs = (if is_flushing k bs then bs else start_first k bs)"

text \<open>Modelled from the spec: \<open>schedule(batch)\<close> of section 4.3: the Batch becomes
  Ready and joins the queue at its end; it is dispatched at once when its key has nothing
  in flight.\<close>

definition schedule ::
  "('t, 'c, 'p, 'k) batch \<Rightarrow> ('t, 'c, 'p, 'k) system \<Rightarrow> ('t, 'c, 'p, 'k) system" where
  "schedule b s =
     s\<lparr>dispatched := admit (destinationKey b) (dispatched s @ [b\<lparr>state := Ready\<rparr>])\<rparr>"

definition handOff ::
  "('t, 'c, 'p, 'k) batch list \<Rightarrow> ('t, 'c, 'p, 'k) system \<Rightarrow> ('t, 'c, 'p, 'k) system" where
  "handOff bs s = foldl (\<lambda>s' b. schedule b s') s bs"

subsection \<open>Batch Accumulator\<close>

text \<open>Modelled from the spec: readiness of section 4.2 by size or age;
  \<open>immediate\<close> mode is the case \<open>maxBatchSize = 1\<close>.\<close>

definition sizeLimit :: "policy \<Rightarrow> nat" where
  "sizeLimit p = (if deliveryMode p = Immediate then 1 else maxBatchSize p)"

definition expired :: "nat \<Rightarrow> ('t, 'c, 'p, 'k) batch \<Rightarrow> bool" where
  "expired now b = (now - createdAt b \<ge> maxWaitTimeMs (batchPolicy b))"

definition isReady :: "nat \<Rightarrow> ('t, 'c, 'p, 'k) batch \<Rightarrow> bool" where
  "isReady now b = (length (records b) \<ge> sizeLimit (batchPolicy b) \<or> expired now b)"

text \<open>Modelled from the spec: \<open>append(destinationKey, record)\<close> of section 4.2:
  the record joins the open Batch of its key, which is created when the key has none; a
  Batch that is ready after the append is handed to the Dispatcher and leaves the map, so
  that the next append for the key creates a new Batch.\<close>

definition appendRecord ::
  "nat \<Rightarrow> 'k \<Rightarrow> policy \<Rightarrow> ('t, 'c, 'p) event_record \<Rightarrow> ('t, 'c, 'p, 'k) system
     \<Rightarrow> ('t, 'c, 'p, 'k) system" where
  "appendRecord now k pol r s =
     (let b = (case find (\<lambda>b. destinationKey b = k) (openBatches s) of
                 None \<Rightarrow> \<lparr>destinationKey = k, batchPolicy = pol, records = [r],
                           state = Accumulating, createdAt = now,
                           flushDeadline = now + maxWaitTimeMs pol, attempts = 0\<rparr>
               | Some b0 \<Rightarrow> b0\<lparr>records := records b0 @ [r]\<rparr>);
          others = filter (\<lambda>b. destinationKey b \<noteq> k) (openBatches s)
      in if isReady now b then schedule b (s\<lparr>openBatches := others\<rparr>)
         else s\<lparr>openBatches := others @ [b]\<rparr>)"

text \<open>Modelled from the spec: the background timer check of section 4.3: every open Batch
  whose wait time has elapsed is handed over, with no append needed.\<close>

definition tick :: "nat \<Rightarrow> ('t, 'c, 'p, 'k) system \<Rightarrow> ('t, 'c, 'p, 'k) system" where
  "tick now s =
     handOff (filter (expired now) (openBatches s))
       (s\<lparr>openBatches := filter (\<lambda>b. \<not> expired now b) (openBatches s)\<rparr>)"

text \<open>Modelled from the spec: \<open>forceFlushForExecution(executionId)\<close> of section
  4.2: every open Batch that holds a record of the execution is handed over, whatever its
  size and age.\<close>

definition holdsExecution :: "nat \<Rightarrow> ('t, 'c, 'p, 'k) batch \<Rightarrow> bool" where
  "holdsExecution e b = list_ex (\<lambda>r. executionId r = e) (records b)"

definition forceFlushForExecution ::
  "nat \<Rightarrow> ('t, 'c, 'p, 'k) system \<Rightarrow> ('t, 'c, 'p, 'k) system" where
  "forceFlushForExecution e s =
     handOff (filter (holdsExecution e) (openBatches s))
       (s\<lparr>openBatches := filter (\<lambda>b. \<not> holdsExecution e b) (openBatches s)\<rparr>)"

subsection \<open>Emission Buffer\<close>

text \<open>Modelled from the spec: \<open>enqueue\<close> of section 4.1 (the \<open>send\<close>
  of section 6) with the errors of section 7. A call that fails validation raises
  ValidationError, one made over the ceiling raises BufferPressureError; neither appends a
  record. An accepted call appends its record under the Destination Key of its type and
  config, with the type's default policy and the call's overrides.\<close>

datatype enqueue_error = ValidationError | BufferPressureError

record ('t, 'c, 'p) send_call =
  callExecutionId :: nat
  callType :: 't
  callConfig :: 'c
  callPayload :: 'p
  overrideMaxBatchSize :: "nat option"
  overrideMaxWaitTimeMs :: "nat option"

definition callPolicy :: "('t, 'c, 'p, 'k) env \<Rightarrow> ('t, 'c, 'p) send_call \<Rightarrow> policy" where
  "callPolicy E c =
     (let d = defaultPolicy E (callType c)
      in d\<lparr>maxBatchSize := (case overrideMaxBatchSize c of None \<Rightarrow> maxBatchSize d | Some n \<Rightarrow> n),
           maxWaitTimeMs := (case overrideMaxWaitTimeMs c of None \<Rightarrow> maxWaitTimeMs d | Some n \<Rightarrow> n)\<rparr>)"

definition newRecord :: "nat \<Rightarrow> nat \<Rightarrow> ('t, 'c, 'p) send_call \<Rightarrow> ('t, 'c, 'p) event_record" where
  "newRecord n now c =
     \<lparr>recordId = n, executionId = callExecutionId c, destinationType = callType c,
      destinationConfig = callConfig c, payload = callPayload c, enqueuedAt = now\<rparr>"

definition recordKey :: "('t, 'c, 'p, 'k) env \<Rightarrow> ('t, 'c, 'p) event_record \<Rightarrow> 'k" where
  "recordKey E r = destinationKeyOf E (destinationType r) (destinationConfig r)"

definition enqueue ::
  "('t, 'c, 'p, 'k) env \<Rightarrow> nat \<Rightarrow> ('t, 'c, 'p) send_call \<Rightarrow> ('t, 'c, 'p, 'k) system
     \<Rightarrow> enqueue_error + ('t, 'c, 'p, 'k) system" where
  "enqueue E now c s =
     (if \<not> serializable E (callPayload c) \<or> \<not> knownType E (callType c)
         \<or> \<not> hasRequiredFields E (callType c) (callConfig c)
      then Inl ValidationError
      else if overCeiling E (openBatches s) then Inl BufferPressureError
      else (let r = newRecord (nextId s) now c
            in Inr (appendRecord now (recordKey E r) (callPolicy E c) r (s\<lparr>nextId := nextId s + 1\<rparr>))))"

subsection \<open>Delivery Worker\<close>

datatype attempt_outcome = Success | TransientFailure | PermanentFailure

fun take_flushing ::
  "'k \<Rightarrow> ('t, 'c, 'p, 'k) batch list
     \<Rightarrow> (('t, 'c, 'p, 'k) batch \<times> ('t, 'c, 'p, 'k) batch list) option" where
  "take_flushing k [] = None"
| "take_flushing k (b # bs) =
     (if destinationKey b = k \<and> state b = Flushing then Some (b, bs)
      else (case take_flushing k bs of None \<Rightarrow> None | Some (x, rest) \<Rightarrow> Some (x, b # rest)))"

definition countAttempt ::
  "'k \<Rightarrow> ('t, 'c, 'p, 'k) batch list \<Rightarrow> ('t, 'c, 'p, 'k) batch list" where
  "countAttempt k bs =
     map (\<lambda>b. if destinationKey b = k \<and> state b = Flushing then b\<lparr>attempts := attempts b + 1\<rparr> else b) bs"

text \<open>Modelled from the spec: the Delivery Worker of section 4.4 at the end of one Delivery
  Attempt for the Batch in flight for a key. Success ends it Delivered; a permanent
  failure, or a transient one at the bound of attempts, ends it Exhausted-Failed; any
  other transient failure leaves it Flushing for the retry. A terminal outcome is
  reported, the Batch leaves the Dispatcher, and the next queued Batch of the key is
  admitted.\<close>

definition attemptDone ::
  "('t, 'c, 'p, 'k) env \<Rightarrow> 'k \<Rightarrow> attempt_outcome \<Rightarrow> ('t, 'c, 'p, 'k) system
     \<Rightarrow> ('t, 'c, 'p, 'k) system" where
  "attemptDone E k outcome s =
     (case take_flushing k (dispatched s) of
        None \<Rightarrow> s
      | Some (b, rest) \<Rightarrow>
          (let b' = b\<lparr>attempts := attempts b + 1\<rparr>;
               final = (case outcome of
                          Success \<Rightarrow> Some Delivered
                        | PermanentFailure \<Rightarrow> Some ExhaustedFailed
                        | TransientFailure \<Rightarrow>
                            if attempts b' \<ge> maxAttempts E then Some ExhaustedFailed else None)
           in case final of
                None \<Rightarrow> s\<lparr>dispatched := countAttempt k (dispatched s)\<rparr>
              | Some st \<Rightarrow> s\<lparr>dispatched := admit k rest,
                              reported := reported s @ [b'\<lparr>state := st\<rparr>]\<rparr>))"

subsection \<open>Runs of the subsystem\<close>

datatype ('t, 'c, 'p, 'k) event =
    Enqueue nat "('t, 'c, 'p) send_call"
  | Tick nat
  | ExecutionComplete nat
  | AttemptDone 'k attempt_outcome

text \<open>Modelled from the spec: the operations of sections 4 and 6 as the events of a run. A
  rejected \<open>enqueue\<close> raises to its caller and leaves the state as it was.\<close>

fun step ::
  "('t, 'c, 'p, 'k) env \<Rightarrow> ('t, 'c, 'p, 'k) event \<Rightarrow> ('t, 'c, 'p, 'k) system
     \<Rightarrow> ('t, 'c, 'p, 'k) system" where
  "step E (Enqueue now c) s = (case enqueue E now c s of Inl err \<Rightarrow> s | Inr s' \<Rightarrow> s')"
| "step E (Tick now) s = tick now s"
| "step E (ExecutionComplete e) s = forceFlushForExecution e s"
| "step E (AttemptDone k outcome) s = attemptDone E k outcome s"

fun run ::
  "('t, 'c, 'p, 'k) env \<Rightarrow> ('t, 'c, 'p, 'k) event list \<Rightarrow> ('t, 'c, 'p, 'k) system
     \<Rightarrow> ('t, 'c, 'p, 'k) system" where
  "run E [] s = s"
| "run E (ev # evs) s = run E evs (step E ev s)"

text \<open>The records of the accepted \<open>enqueue\<close> calls of a run, in call order.\<close>

fun enqueued ::
  "('t, 'c, 'p, 'k) env \<Rightarrow> ('t, 'c, 'p, 'k) event list \<Rightarrow> ('t, 'c, 'p, 'k) system
     \<Rightarrow> ('t, 'c, 'p) event_record list" where
  "enqueued E [] s = []"
| "enqueued E (Enqueue now c # evs) s =
     (case enqueue E now c s of
        Inl err \<Rightarrow> enqueued E evs s
      | Inr s' \<Rightarrow> newRecord (nextId s) now c # enqueued E evs s')"
| "enqueued E (ev # evs) s = enqueued E evs (step E ev s)"

text \<open>The records held for a key by a list of Batches, in the order of the list.\<close>

definition recordsFor ::
  "'k \<Rightarrow> ('t, 'c, 'p, 'k) batch list \<Rightarrow> ('t, 'c, 'p) event_record list" where
  "recordsFor k bs = concat (map records (filter (\<lambda>b. destinationKey b = k) bs))"


text \<open>Single flight for a key: of the Batches of the key that the Dispatcher holds,
  the oldest is Flushing and every later one is Ready (queued).\<close>

definition singleFlight :: "'k \<Rightarrow> ('t, 'c, 'p, 'k) batch list \<Rightarrow> bool" where
  "singleFlight k bs =
     (case map state (filter (\<lambda>b. destinationKey b = k) bs) of
        [] \<Rightarrow> True
      | st # sts \<Rightarrow> st = Flushing \<and> list_all (\<lambda>x. x = Ready) sts)"

text \<open>The records of a key in the order in which the subsystem holds them: those of the
  reported Batches first, then those of the Dispatcher's Batches, then those of the open
  Batch.\<close>

definition recordsInOrder ::
  "'k \<Rightarrow> ('t, 'c, 'p, 'k) system \<Rightarrow> ('t, 'c, 'p) event_record list" where
  "recordsInOrder k s =
     recordsFor k (reported s) @ recordsFor k (dispatched s) @ recordsFor k (openBatches s)"

text \<open>The states that runs preserve: every key is in single flight, a key has at most
  one open Batch, open Batches are Accumulating, the Dispatcher's Batches are Ready or
  Flushing, and reported ones are in a terminal state.\<close>

definition consistent :: "('t, 'c, 'p, 'k) system \<Rightarrow> bool" where
  "consistent s \<longleftrightarrow>
     (\<forall>k. singleFlight k (dispatched s))
     \<and> distinct (map destinationKey (openBatches s))
     \<and> list_all (\<lambda>b. state b = Accumulating) (openBatches s)
     \<and> list_all (\<lambda>b. state b = Ready \<or> state b = Flushing) (dispatched s)
     \<and> list_all (\<lambda>b. state b = Delivered \<or> state b = ExhaustedFailed) (reported s)"

text \<open>The records of the Batches of a key that were reported Delivered, in the order of
  the reports.\<close>

definition deliveredFor ::
  "'k \<Rightarrow> ('t, 'c, 'p, 'k) system \<Rightarrow> ('t, 'c, 'p) event_record list" where
  "deliveredFor k s =
     concat (map records
       (filter (\<lambda>b. destinationKey b = k \<and> state b = Delivered) (reported s)))"

text \<open>One environment, for concrete evaluations: the destination types of section 6,
  a config that is the target's name, the Destination Key the pair of type and config,
  batches of two records within five seconds for object storage and immediate delivery
  for the other types, three attempts.\<close>

definition demoEnv :: "(string, string, nat, string \<times> string) env" where
  "demoEnv =
     \<lparr>serializable = (\<lambda>p. True),
      knownType = (\<lambda>t. t \<in> set [''http'', ''object-storage'', ''email'', ''push-channel'', ''re-emit'']),
      hasRequiredFields = (\<lambda>t c. c \<noteq> []),
      destinationKeyOf = (\<lambda>t c. (t, c)),
      defaultPolicy = (\<lambda>t. if t = ''object-storage''
                            then \<lparr>maxBatchSize = 2, maxWaitTimeMs = 5000, deliveryMode = Batched\<rparr>
                            else \<lparr>maxBatchSize = 1, maxWaitTimeMs = 0, deliveryMode = Immediate\<rparr>),
      overCeiling = (\<lambda>bs. False),
      maxAttempts = 3\<rparr>"

definition demoCall :: "nat \<Rightarrow> nat \<Rightarrow> (string, string, nat) send_call" where
  "demoCall e p =
     \<lparr>callExecutionId = e, callType = ''object-storage'', callConfig = ''bucket'',
      callPayload = p, overrideMaxBatchSize = None, overrideMaxWaitTimeMs = None\<rparr>"

section \<open>Properties of the object utilities\<close>

lemma trim_Nil_iff: "trim s = [] \<longleftrightarrow> (\<forall>c\<in>set s. isWhiteSpace c)"
proof -
  have a: "dropWhile P (rev (dropWhile P xs)) = [] \<longleftrightarrow> dropWhile P xs = []" for P :: "'a \<Rightarrow> bool" and xs
  proof (cases "dropWhile P xs")
    case Nil show ?thesis unfolding Nil by simp
  next
    case (Cons y ys)
    then have "\<not> P y" by (metis hd_dropWhile list.sel(1) list.distinct(1))
    then show ?thesis using Cons by (auto simp: dropWhile_append)
  qed
  have "trim s = [] \<longleftrightarrow> dropWhile isWhiteSpace s = []" unfolding trim_def using a[of isWhiteSpace s] by simp
  then show ?thesis by (simp add: dropWhile_eq_Nil_conv)
qed

lemma update_fresh: "k \<notin> fst ` set al \<Longrightarrow> AList.update k v al = al @ [(k, v)]"
  by (induction al) auto

lemma foldl_reduce_step:
  "distinct (map fst es) \<Longrightarrow> fst ` set acc \<inter> fst ` set es = {} \<Longrightarrow>
   foldl reduce_step acc es = acc @ filter (\<lambda>kv. truthy (emptyStrToUndefined (snd kv))) es"
proof (induction es arbitrary: acc)
  case Nil then show ?case by simp
next
  case (Cons kv es)
  obtain k v where kv: "kv = (k, v)" by (cases kv)
  show ?case
  proof (cases "truthy (emptyStrToUndefined v)")
    case False
    then have "reduce_step acc kv = acc" by (simp add: reduce_step_def kv)
    then show ?thesis using Cons False kv by auto
  next
    case True
    have "k \<notin> fst ` set acc" using Cons.prems kv by auto
    then have s: "reduce_step acc kv = acc @ [(k, v)]" using True by (simp add: reduce_step_def kv update_fresh)
    have "fst ` set (acc @ [(k, v)]) \<inter> fst ` set es = {}" using Cons.prems kv by auto
    moreover have "distinct (map fst es)" using Cons.prems by simp
    ultimately have "foldl reduce_step (acc @ [(k, v)]) es = (acc @ [(k, v)]) @ filter (\<lambda>kv. truthy (emptyStrToUndefined (snd kv))) es"
      by (rule Cons.IH[rotated])
    then show ?thesis using s True kv by simp
  qed
qed

lemma truthy_norm: "truthy (emptyStrToUndefined x) \<longleftrightarrow> truthy x \<and> (\<forall>s. x = JStr s \<longrightarrow> (\<exists>c\<in>set s. \<not> isWhiteSpace c))"
  using trim_Nil_iff by (cases x) (auto simp: emptyStrToUndefined_def Let_def)


text \<open>
  Claim C8. For an object that is neither null nor an array (its keys distinct, as the
  keys of every JavaScript object are), \<^const>\<open>emptyObjectToUndefined\<close> returns the object
  of exactly those properties whose value is truthy after \<^const>\<open>emptyStrToUndefined\<close>,
  in their order and with their values, and undefined when none is left (an object
  without keys included). A value is truthy after normalisation iff it is truthy and
  not a string of white space only; so zero, false, null, the empty string and a
  white-space string are removed. A value that is not an object, and an array, is
  returned unchanged.
\<close>

theorem emptyObjectToUndefined_object:
  "(distinct (map fst ps) \<longrightarrow>
      emptyObjectToUndefined (JObj ps) =
        Inr (if filter (\<lambda>kv. truthy (emptyStrToUndefined (snd kv))) ps = [] then JUndefined
             else JObj (filter (\<lambda>kv. truthy (emptyStrToUndefined (snd kv))) ps)))
   \<and> (truthy (emptyStrToUndefined x) \<longleftrightarrow>
        truthy x \<and> (\<forall>s. x = JStr s \<longrightarrow> (\<exists>c\<in>set s. \<not> isWhiteSpace c)))
   \<and> \<not> truthy (emptyStrToUndefined (JNum (JFinite sg 0 e)))
   \<and> \<not> truthy (emptyStrToUndefined (JBool False))
   \<and> \<not> truthy (emptyStrToUndefined JNull)
   \<and> \<not> truthy (emptyStrToUndefined (JStr []))
   \<and> ((\<forall>c\<in>set w. isWhiteSpace c) \<longrightarrow> \<not> truthy (emptyStrToUndefined (JStr w)))
   \<and> (typeof v \<noteq> TyObject \<or> isArray v \<longrightarrow> emptyObjectToUndefined v = Inr v)"
proof -
  let ?keep = "\<lambda>kv. truthy (emptyStrToUndefined (snd kv))"
  have obj: "emptyObjectToUndefined (JObj ps) =
        Inr (if filter ?keep ps = [] then JUndefined else JObj (filter ?keep ps))"
    if d: "distinct (map fst ps)"
  proof -
    have f: "foldl reduce_step [] ps = filter ?keep ps"
      using foldl_reduce_step[of ps "[]"] d by simp
    show ?thesis
    proof (cases ps)
      case Nil
      then show ?thesis by (simp add: emptyObjectToUndefined_def Object_keys_def)
    next
      case (Cons p qs)
      then have "ps \<noteq> []" by simp
      then show ?thesis
        by (simp add: emptyObjectToUndefined_def Object_keys_def f Let_def)
    qed
  qed
  have other: "emptyObjectToUndefined v = Inr v" if "typeof v \<noteq> TyObject \<or> isArray v"
    using that by (simp add: emptyObjectToUndefined_def)
  have ws: "\<not> truthy (emptyStrToUndefined (JStr w))" if "\<forall>c\<in>set w. isWhiteSpace c"
    using that by (simp add: truthy_norm)
  show ?thesis
    using obj other ws truthy_norm[of x] by (simp add: truthy_norm)
qed

theorem emptyObjectToUndefined_object_witness:
  "emptyObjectToUndefined
     (JObj [([97], JStr [32, 9]), ([98], JNum (JFinite False 5 0)), ([99], JBool False),
            ([100], JNum (JFinite True 0 0)), ([101], JNull), ([102], JStr []),
            ([103], JStr [32, 120])])
   = Inr (JObj [([98], JNum (JFinite False 5 0)), ([103], JStr [32, 120])])
   \<and> emptyObjectToUndefined (JObj [([97], JStr [32, 9]), ([99], JBool False)]) = Inr JUndefined
   \<and> emptyObjectToUndefined (JObj []) = Inr JUndefined
   \<and> emptyObjectToUndefined (JArr [JNull]) = Inr (JArr [JNull])
   \<and> emptyObjectToUndefined (JStr [32]) = Inr (JStr [32])"
  using emptyObjectToUndefined_object
      [of "[([97], JStr [32, 9]), ([98], JNum (JFinite False 5 0)), ([99], JBool False),
            ([100], JNum (JFinite True 0 0)), ([101], JNull), ([102], JStr []),
            ([103], JStr [32, 120])]" JNull False 0 "[]" "JArr [JNull]"]
    emptyObjectToUndefined_object
      [of "[([97], JStr [32, 9]), ([99], JBool False)]" JNull False 0 "[]" "JStr [32]"]
    emptyObjectToUndefined_object [of "[]" JNull False 0 "[]" JUndefined]
  by (simp add: emptyStrToUndefined_def trim_def isWhiteSpace_def)

text \<open>
  Claim C9. \<^verbatim>\<open>typeof null\<close> is \<^verbatim>\<open>"object"\<close> and null is not an array, so the guard
  lets null through to \<^verbatim>\<open>Object.keys(null)\<close>, which throws a TypeError: the function
  has no result on null.
\<close>

theorem emptyObjectToUndefined_null: "emptyObjectToUndefined JNull = Inl TypeError"
  by (simp add: emptyObjectToUndefined_def Object_keys_def)

theorem emptyObjectToUndefined_null_witness:
  "typeof JNull = TyObject \<and> \<not> isArray JNull \<and> Object_keys JNull = Inl TypeError
   \<and> emptyObjectToUndefined JNull \<noteq> Inr JNull
   \<and> emptyObjectToUndefined JNull \<noteq> Inr JUndefined"
  by (simp add: emptyObjectToUndefined_null Object_keys_def)

section \<open>Properties of the customer search\<close>

lemma lit_created_after_not_email:
  "\<not> prefix (lit ''created>'') (lit ''email='' @ xs)"
  "\<not> prefix (lit ''created>'') (lit ''email~'' @ xs)"
  "\<not> prefix (lit ''created>'') (lit ''created<'' @ xs)"
  "prefix (lit ''created>'') (lit ''created>'' @ xs)"
  by (simp_all add: lit_def)

lemma lit_created_before_not_email:
  "\<not> prefix (lit ''created<'') (lit ''email='' @ xs)"
  "\<not> prefix (lit ''created<'') (lit ''email~'' @ xs)"
  "\<not> prefix (lit ''created<'') (lit ''created>'' @ xs)"
  "prefix (lit ''created<'') (lit ''created<'' @ xs)"
  by (simp_all add: lit_def)

lemma queryParts_created_after:
  "(\<exists>x\<in>set (queryParts Dp this). prefix (lit ''created>'') x) \<longleftrightarrow>
     ts_truthy (convertDateToTimestamp Dp (createdAfter this))"
  unfolding queryParts_def Let_def
  using lit_created_after_not_email by (simp split del: if_split) auto

lemma queryParts_created_before:
  "(\<exists>x\<in>set (queryParts Dp this). prefix (lit ''created<'') x) \<longleftrightarrow>
     ts_truthy (convertDateToTimestamp Dp (createdBefore this))"
  unfolding queryParts_def Let_def
  using lit_created_before_not_email by (simp split del: if_split) auto

lemma convertDateToTimestamp_unset [simp]: "convertDateToTimestamp Dp None = TsNull"
  by (simp add: convertDateToTimestamp_def prop_truthy_def)

lemma buildSearchQuery_after_omitted:
  "\<not> ts_truthy (convertDateToTimestamp Dp (createdAfter this)) \<Longrightarrow>
   buildSearchQuery Dp this = buildSearchQuery Dp (this\<lparr>createdAfter := None\<rparr>)"
  by (simp add: buildSearchQuery_def queryParts_def Let_def)

lemma buildSearchQuery_before_omitted:
  "\<not> ts_truthy (convertDateToTimestamp Dp (createdBefore this)) \<Longrightarrow>
   buildSearchQuery Dp this = buildSearchQuery Dp (this\<lparr>createdBefore := None\<rparr>)"
  by (simp add: buildSearchQuery_def queryParts_def Let_def)

lemma convertDateToTimestamp_NaN:
  "Dp (s @ lit ''T00:00:00Z'') = None \<Longrightarrow> \<not> ts_truthy (convertDateToTimestamp Dp (Some s))"
  by (simp add: convertDateToTimestamp_def)

lemma convertDateToTimestamp_epoch:
  "Dp (lit ''1970-01-01T00:00:00Z'') = Some 0 \<Longrightarrow>
   \<not> ts_truthy (convertDateToTimestamp Dp (Some (lit ''1970-01-01'')))"
  by (simp add: convertDateToTimestamp_def prop_truthy_def lit_def)

text \<open>
  Claim C10. \<^const>\<open>convertDateToTimestamp\<close> returns null for a falsy date string. The
  array of query parts holds a \<^verbatim>\<open>created>\<close> clause exactly when the timestamp of
  \<^verbatim>\<open>createdAfter\<close> is truthy, and a \<^verbatim>\<open>created<\<close> clause exactly when that of
  \<^verbatim>\<open>createdBefore\<close> is. Whenever a timestamp is falsy the query built is the one built
  without that prop; in particular for a date string that the parser rejects (time
  value NaN) and for \<^verbatim>\<open>1970-01-01\<close>, whose time value is 0. \<^const>\<open>buildSearchQuery\<close>
  has no error result: the filter is left out silently.
\<close>

theorem buildSearchQuery_date_filters:
  "(\<not> prop_truthy d \<longrightarrow> convertDateToTimestamp Dp d = TsNull)
   \<and> ((\<exists>x\<in>set (queryParts Dp this). prefix (lit ''created>'') x) \<longleftrightarrow>
          ts_truthy (convertDateToTimestamp Dp (createdAfter this)))
   \<and> ((\<exists>x\<in>set (queryParts Dp this). prefix (lit ''created<'') x) \<longleftrightarrow>
          ts_truthy (convertDateToTimestamp Dp (createdBefore this)))
   \<and> (\<not> ts_truthy (convertDateToTimestamp Dp (createdAfter this)) \<longrightarrow>
          buildSearchQuery Dp this = buildSearchQuery Dp (this\<lparr>createdAfter := None\<rparr>))
   \<and> (\<not> ts_truthy (convertDateToTimestamp Dp (createdBefore this)) \<longrightarrow>
          buildSearchQuery Dp this = buildSearchQuery Dp (this\<lparr>createdBefore := None\<rparr>))
   \<and> (Dp (s @ lit ''T00:00:00Z'') = None \<longrightarrow>
          buildSearchQuery Dp (this\<lparr>createdAfter := Some s\<rparr>)
            = buildSearchQuery Dp (this\<lparr>createdAfter := None\<rparr>)
        \<and> buildSearchQuery Dp (this\<lparr>createdBefore := Some s\<rparr>)
            = buildSearchQuery Dp (this\<lparr>createdBefore := None\<rparr>))
   \<and> (Dp (lit ''1970-01-01T00:00:00Z'') = Some 0 \<longrightarrow>
          buildSearchQuery Dp (this\<lparr>createdAfter := Some (lit ''1970-01-01'')\<rparr>)
            = buildSearchQuery Dp (this\<lparr>createdAfter := None\<rparr>)
        \<and> buildSearchQuery Dp (this\<lparr>createdBefore := Some (lit ''1970-01-01'')\<rparr>)
            = buildSearchQuery Dp (this\<lparr>createdBefore := None\<rparr>))"
proof -
  have null: "convertDateToTimestamp Dp d = TsNull" if "\<not> prop_truthy d"
    using that by (simp add: convertDateToTimestamp_def)
  have nan: "buildSearchQuery Dp (this\<lparr>createdAfter := Some s\<rparr>)
               = buildSearchQuery Dp (this\<lparr>createdAfter := None\<rparr>)
           \<and> buildSearchQuery Dp (this\<lparr>createdBefore := Some s\<rparr>)
               = buildSearchQuery Dp (this\<lparr>createdBefore := None\<rparr>)"
    if h: "Dp (s @ lit ''T00:00:00Z'') = None"
    using buildSearchQuery_after_omitted[of Dp "this\<lparr>createdAfter := Some s\<rparr>"]
      buildSearchQuery_before_omitted[of Dp "this\<lparr>createdBefore := Some s\<rparr>"]
      convertDateToTimestamp_NaN[of Dp s] h
    by simp
  have epoch: "buildSearchQuery Dp (this\<lparr>createdAfter := Some (lit ''1970-01-01'')\<rparr>)
               = buildSearchQuery Dp (this\<lparr>createdAfter := None\<rparr>)
           \<and> buildSearchQuery Dp (this\<lparr>createdBefore := Some (lit ''1970-01-01'')\<rparr>)
               = buildSearchQuery Dp (this\<lparr>createdBefore := None\<rparr>)"
    if h: "Dp (lit ''1970-01-01T00:00:00Z'') = Some 0"
    using buildSearchQuery_after_omitted[of Dp "this\<lparr>createdAfter := Some (lit ''1970-01-01'')\<rparr>"]
      buildSearchQuery_before_omitted[of Dp "this\<lparr>createdBefore := Some (lit ''1970-01-01'')\<rparr>"]
      convertDateToTimestamp_epoch[of Dp] h
    by simp
  show ?thesis
    using null nan epoch queryParts_created_after[of Dp this] queryParts_created_before[of Dp this]
      buildSearchQuery_after_omitted[of Dp this] buildSearchQuery_before_omitted[of Dp this]
    by blast
qed

lemma Date_parse_utc_epoch: "Date_parse_utc (lit ''1970-01-01T00:00:00Z'') = Some 0"
  by (simp add: Date_parse_utc_def lit_def digit_val_def days_in_month_def days_from_civil_def)

lemma Date_parse_utc_2021: "Date_parse_utc (lit ''2021-01-01T00:00:00Z'') = Some 1609459200000"
  by (simp add: Date_parse_utc_def lit_def digit_val_def days_in_month_def days_from_civil_def)

lemma Date_parse_utc_invalid: "Date_parse_utc (lit ''tomorrowT00:00:00Z'') = None"
  by (simp add: Date_parse_utc_def lit_def)

theorem buildSearchQuery_date_filters_witness:
  "Date_parse_utc (lit ''tomorrow'' @ lit ''T00:00:00Z'') = None
   \<and> Date_parse_utc (lit ''1970-01-01T00:00:00Z'') = Some 0
   \<and> convertDateToTimestamp Date_parse_utc (Some []) = TsNull
   \<and> convertDateToTimestamp Date_parse_utc (Some (lit ''tomorrow'')) = TsNaN
   \<and> convertDateToTimestamp Date_parse_utc (Some (lit ''1970-01-01'')) = TsNum 0
   \<and> buildSearchQuery Date_parse_utc
        \<lparr>query = None, email = Some (lit ''a@b.c''), emailDomain = None,
         createdAfter = Some (lit ''1970-01-01''), createdBefore = Some (lit ''tomorrow'')\<rparr>
       = buildSearchQuery Date_parse_utc
        \<lparr>query = None, email = Some (lit ''a@b.c''), emailDomain = None,
         createdAfter = None, createdBefore = None\<rparr>
   \<and> queryParts Date_parse_utc
        \<lparr>query = None, email = Some (lit ''a@b.c''), emailDomain = None,
         createdAfter = Some (lit ''1970-01-01''), createdBefore = Some (lit ''tomorrow'')\<rparr>
       = [lit ''email='' @ [0x22] @ lit ''a@b.c'' @ [0x22]]
   \<and> queryParts Date_parse_utc
        \<lparr>query = None, email = None, emailDomain = None,
         createdAfter = Some (lit ''2021-01-01''), createdBefore = Some (lit ''1970-01-01'')\<rparr>
       = [lit ''created>1609459200'']
   \<and> run_query Date_parse_utc
        \<lparr>query = None, email = None, emailDomain = None,
         createdAfter = Some (lit ''1970-01-01''), createdBefore = Some (lit ''tomorrow'')\<rparr>
       = Inl (Error ''Please provide at least one search parameter'')"
proof -
  let ?p = "\<lparr>query = None, email = Some (lit ''a@b.c''), emailDomain = None,
         createdAfter = None, createdBefore = Some (lit ''tomorrow'')\<rparr>"
  let ?q = "\<lparr>query = None, email = None, emailDomain = None,
         createdAfter = None, createdBefore = Some (lit ''tomorrow'')\<rparr>"
  let ?r = "\<lparr>query = None, email = None, emailDomain = None,
         createdAfter = Some (lit ''2021-01-01''), createdBefore = Some (lit ''1970-01-01'')\<rparr>"
  have t: "Date_parse_utc (lit ''tomorrow'' @ lit ''T00:00:00Z'') = None"
    using Date_parse_utc_invalid by (simp add: lit_def)
  have c1: "convertDateToTimestamp Date_parse_utc (Some (lit ''tomorrow'')) = TsNaN"
    using t by (simp add: convertDateToTimestamp_def prop_truthy_def lit_def)
  have c2: "convertDateToTimestamp Date_parse_utc (Some (lit ''1970-01-01'')) = TsNum 0"
    using Date_parse_utc_epoch by (simp add: convertDateToTimestamp_def prop_truthy_def lit_def)
  have c3: "convertDateToTimestamp Date_parse_utc (Some (lit ''2021-01-01'')) = TsNum 1609459200"
    using Date_parse_utc_2021 by (simp add: convertDateToTimestamp_def prop_truthy_def lit_def)
  have d: "decimal 1609459200 = lit ''1609459200''"
    by (simp add: decimal.simps lit_def)
  note a = buildSearchQuery_date_filters[of "Some []" Date_parse_utc ?p "lit ''tomorrow''"]
  note b = buildSearchQuery_date_filters[of None Date_parse_utc ?q "lit ''tomorrow''"]
  note c = buildSearchQuery_date_filters[of None Date_parse_utc ?r "lit ''tomorrow''"]
  have e1: "buildSearchQuery Date_parse_utc (?p\<lparr>createdAfter := Some (lit ''1970-01-01'')\<rparr>)
            = buildSearchQuery Date_parse_utc (?p\<lparr>createdAfter := None\<rparr>)"
    using a Date_parse_utc_epoch by blast
  have e2: "buildSearchQuery Date_parse_utc (?p\<lparr>createdBefore := Some (lit ''tomorrow'')\<rparr>)
            = buildSearchQuery Date_parse_utc (?p\<lparr>createdBefore := None\<rparr>)"
    using a t by blast
  have e3: "buildSearchQuery Date_parse_utc (?q\<lparr>createdAfter := Some (lit ''1970-01-01'')\<rparr>)
            = buildSearchQuery Date_parse_utc (?q\<lparr>createdBefore := None\<rparr>)"
    using b t Date_parse_utc_epoch by simp
  have e4: "convertDateToTimestamp Date_parse_utc (Some []) = TsNull"
    using a by (simp add: prop_truthy_def)
  have q1: "queryParts Date_parse_utc (?p\<lparr>createdAfter := Some (lit ''1970-01-01'')\<rparr>)
            = [lit ''email='' @ [0x22] @ lit ''a@b.c'' @ [0x22]]"
    by (simp add: queryParts_def Let_def c1 c2 prop_truthy_def escapeQuotes_def)
      (simp add: lit_def)
  have q2: "queryParts Date_parse_utc ?r = [lit ''created>1609459200'']"
    using c by (simp add: queryParts_def Let_def c2 c3 prop_truthy_def d) (simp add: lit_def)
  have r: "run_query Date_parse_utc (?q\<lparr>createdAfter := Some (lit ''1970-01-01'')\<rparr>)
            = Inl (Error ''Please provide at least one search parameter'')"
    unfolding run_query_def e3 by (simp add: buildSearchQuery_def queryParts_def Let_def prop_truthy_def)
  show ?thesis
    using t Date_parse_utc_epoch e4 c1 c2 e1 e2 q1 q2 r by simp
qed

section \<open>Properties of the Destination Delivery subsystem\<close>

lemma filter_key_start_first_other:
  "k \<noteq> k' \<Longrightarrow> filter (\<lambda>b. destinationKey b = k) (start_first k' bs)
     = filter (\<lambda>b. destinationKey b = k) bs"
  by (induction bs) auto

lemma recordsFor_start_first: "recordsFor k (start_first k' bs) = recordsFor k bs"
  by (induction bs) (auto simp: recordsFor_def)

lemma recordsFor_admit: "recordsFor k (admit k' bs) = recordsFor k bs"
  by (simp add: admit_def recordsFor_start_first)

lemma filter_key_admit_other:
  "k \<noteq> k' \<Longrightarrow> filter (\<lambda>b. destinationKey b = k) (admit k' bs)
     = filter (\<lambda>b. destinationKey b = k) bs"
  by (simp add: admit_def filter_key_start_first_other)

lemma is_flushing_iff:
  "is_flushing k bs \<longleftrightarrow> Flushing \<in> set (map state (filter (\<lambda>b. destinationKey b = k) bs))"
  by (induction bs) (auto simp: is_flushing_def)

lemma states_start_first_all_ready:
  "list_all (\<lambda>x. x = Ready) (map state (filter (\<lambda>b. destinationKey b = k) bs)) \<Longrightarrow>
   map state (filter (\<lambda>b. destinationKey b = k) (start_first k bs))
     = (case map state (filter (\<lambda>b. destinationKey b = k) bs) of
          [] \<Rightarrow> [] | st # sts \<Rightarrow> Flushing # sts)"
  by (induction bs) auto

lemma singleFlight_not_flushing:
  "singleFlight k bs \<Longrightarrow> \<not> is_flushing k bs \<Longrightarrow> filter (\<lambda>b. destinationKey b = k) bs = []"
  by (cases "filter (\<lambda>b. destinationKey b = k) bs")
     (auto simp: singleFlight_def is_flushing_iff split: list.splits)

lemma singleFlight_admit_ready:
  assumes "list_all (\<lambda>x. x = Ready) (map state (filter (\<lambda>b. destinationKey b = k) bs))"
  shows "singleFlight k (admit k bs)"
proof -
  have nf: "\<not> is_flushing k bs"
    using assms by (auto simp: is_flushing_iff list_all_iff)
  show ?thesis
    using states_start_first_all_ready[OF assms] assms nf
    by (auto simp: admit_def singleFlight_def split: list.splits)
qed

lemma singleFlight_snoc_ready:
  assumes "singleFlight k bs" and "is_flushing k bs"
  shows "singleFlight k (bs @ [b\<lparr>state := Ready\<rparr>])"
proof (cases "filter (\<lambda>x. destinationKey x = k) bs")
  case Nil
  then show ?thesis using assms(2) by (simp add: is_flushing_iff)
next
  case (Cons x xs)
  then show ?thesis using assms(1) by (simp add: singleFlight_def)
qed

lemma singleFlight_schedule_same:
  assumes "singleFlight (destinationKey b) (dispatched s)"
  shows "singleFlight (destinationKey b) (dispatched (schedule b s))"
proof (cases "is_flushing (destinationKey b) (dispatched s)")
  case fl: True
  let ?bs = "dispatched s @ [b\<lparr>state := Ready\<rparr>]"
  have "is_flushing (destinationKey b) ?bs" using fl by (simp add: is_flushing_def)
  then have "admit (destinationKey b) ?bs = ?bs" by (simp only: admit_def if_True)
  moreover have "singleFlight (destinationKey b) ?bs"
    using assms fl by (rule singleFlight_snoc_ready)
  ultimately show ?thesis by (simp add: schedule_def)
next
  case False
  let ?bs = "dispatched s @ [b\<lparr>state := Ready\<rparr>]"
  have e: "filter (\<lambda>x. destinationKey x = destinationKey b) (dispatched s) = []"
    using assms False by (rule singleFlight_not_flushing)
  have "map state (filter (\<lambda>x. destinationKey x = destinationKey b) ?bs) = [Ready]"
    unfolding filter_append e by simp
  then have "list_all (\<lambda>x. x = Ready) (map state (filter (\<lambda>x. destinationKey x = destinationKey b) ?bs))"
    by simp
  then have "singleFlight (destinationKey b) (admit (destinationKey b) ?bs)"
    by (rule singleFlight_admit_ready)
  then show ?thesis by (simp add: schedule_def)
qed

lemma singleFlight_schedule:
  assumes "singleFlight k (dispatched s)"
  shows "singleFlight k (dispatched (schedule b s))"
proof (cases "k = destinationKey b")
  case False
  then show ?thesis
    using assms by (simp add: schedule_def singleFlight_def filter_key_admit_other)
next
  case True
  show ?thesis using assms unfolding True by (rule singleFlight_schedule_same)
qed

lemma schedule_fields [simp]:
  "openBatches (schedule b s) = openBatches s"
  "reported (schedule b s) = reported s"
  "nextId (schedule b s) = nextId s"
  by (simp_all add: schedule_def)

lemma handOff_fields [simp]:
  "openBatches (handOff bs s) = openBatches s"
  "reported (handOff bs s) = reported s"
  "nextId (handOff bs s) = nextId s"
  unfolding handOff_def by (induction bs arbitrary: s) simp_all

lemma singleFlight_handOff:
  "singleFlight k (dispatched s) \<Longrightarrow> singleFlight k (dispatched (handOff bs s))"
  unfolding handOff_def
  by (induction bs arbitrary: s) (simp_all add: singleFlight_schedule)

lemma recordsFor_append [simp]: "recordsFor k (xs @ ys) = recordsFor k xs @ recordsFor k ys"
  by (simp add: recordsFor_def)

lemma recordsFor_schedule:
  "recordsFor k (dispatched (schedule b s))
     = recordsFor k (dispatched s) @ recordsFor k [b]"
  by (simp add: schedule_def recordsFor_admit) (simp add: recordsFor_def)

lemma recordsFor_handOff:
  "recordsFor k (dispatched (handOff bs s)) = recordsFor k (dispatched s) @ recordsFor k bs"
  unfolding handOff_def
proof (induction bs arbitrary: s)
  case Nil
  then show ?case by (simp add: recordsFor_def)
next
  case (Cons b bs)
  have "recordsFor k (b # bs) = recordsFor k [b] @ recordsFor k bs"
    by (simp add: recordsFor_def)
  then show ?case using Cons[of "schedule b s"] by (simp add: recordsFor_schedule)
qed

lemma take_flushing_Some:
  "take_flushing k bs = Some (b, rest) \<Longrightarrow> destinationKey b = k \<and> state b = Flushing"
  by (induction bs arbitrary: rest) (auto split: if_splits option.splits)

lemma take_flushing_other:
  "take_flushing k bs = Some (b, rest) \<Longrightarrow> k' \<noteq> k \<Longrightarrow>
   filter (\<lambda>x. destinationKey x = k') rest = filter (\<lambda>x. destinationKey x = k') bs"
  by (induction bs arbitrary: rest) (auto split: if_splits option.splits)

lemma take_flushing_set:
  "take_flushing k bs = Some (b, rest) \<Longrightarrow> set rest \<subseteq> set bs"
  by (induction bs arbitrary: rest) (auto split: if_splits option.splits)

lemma take_flushing_first:
  "take_flushing k bs = Some (b, rest) \<Longrightarrow> singleFlight k bs \<Longrightarrow>
   filter (\<lambda>x. destinationKey x = k) bs = b # filter (\<lambda>x. destinationKey x = k) rest"
proof (induction bs arbitrary: rest)
  case Nil
  then show ?case by simp
next
  case (Cons c bs)
  show ?case
  proof (cases "destinationKey c = k")
    case True
    then have "state c = Flushing" using Cons.prems(2) by (simp add: singleFlight_def)
    then show ?thesis using Cons.prems(1) True by simp
  next
    case False
    then obtain rest' where r: "take_flushing k bs = Some (b, rest')" "rest = c # rest'"
      using Cons.prems(1) by (auto split: option.splits)
    have "singleFlight k bs" using Cons.prems(2) False by (simp add: singleFlight_def)
    then show ?thesis using Cons.IH[OF r(1)] r(2) False by simp
  qed
qed

lemma states_countAttempt:
  "map state (filter (\<lambda>x. destinationKey x = k') (countAttempt k bs))
     = map state (filter (\<lambda>x. destinationKey x = k') bs)"
  by (induction bs) (auto simp: countAttempt_def)

lemma singleFlight_countAttempt: "singleFlight k' (countAttempt k bs) = singleFlight k' bs"
  by (simp add: singleFlight_def states_countAttempt)

lemma recordsFor_countAttempt: "recordsFor k' (countAttempt k bs) = recordsFor k' bs"
  by (induction bs) (auto simp: countAttempt_def recordsFor_def)

lemma singleFlight_attemptDone:
  assumes "\<And>k'. singleFlight k' (dispatched s)"
  shows "singleFlight k' (dispatched (attemptDone E k outcome s))"
proof (cases "take_flushing k (dispatched s)")
  case None
  then show ?thesis using assms by (simp add: attemptDone_def)
next
  case (Some p)
  obtain b rest where p: "p = (b, rest)" by (cases p)
  have tf: "take_flushing k (dispatched s) = Some (b, rest)" using Some p by simp
  have adm: "singleFlight k' (admit k rest)"
  proof (cases "k' = k")
    case True
    have "filter (\<lambda>x. destinationKey x = k) (dispatched s)
            = b # filter (\<lambda>x. destinationKey x = k) rest"
      using tf assms by (rule take_flushing_first)
    then have "list_all (\<lambda>x. x = Ready) (map state (filter (\<lambda>x. destinationKey x = k) rest))"
      using assms[of k] by (simp add: singleFlight_def)
    then show ?thesis unfolding True by (rule singleFlight_admit_ready)
  next
    case False
    have "filter (\<lambda>x. destinationKey x = k') rest = filter (\<lambda>x. destinationKey x = k') (dispatched s)"
      using tf False by (rule take_flushing_other)
    then show ?thesis
      using assms[of k'] False by (simp add: singleFlight_def filter_key_admit_other)
  qed
  show ?thesis
    using adm assms[of k']
    by (simp add: attemptDone_def tf Let_def singleFlight_countAttempt
        split: attempt_outcome.splits option.splits)
qed

lemma recordsFor_attemptDone:
  assumes "singleFlight k (dispatched s)"
  shows "recordsFor k' (reported (attemptDone E k outcome s))
           @ recordsFor k' (dispatched (attemptDone E k outcome s))
         = recordsFor k' (reported s) @ recordsFor k' (dispatched s)"
proof (cases "take_flushing k (dispatched s)")
  case None
  then show ?thesis by (simp add: attemptDone_def)
next
  case (Some p)
  obtain b rest where p: "p = (b, rest)" by (cases p)
  have tf: "take_flushing k (dispatched s) = Some (b, rest)" using Some p by simp
  have kb: "destinationKey b = k" using take_flushing_Some[OF tf] by simp
  have split: "recordsFor k' (dispatched s) = recordsFor k' [b] @ recordsFor k' rest"
  proof (cases "k' = k")
    case True
    show ?thesis
      using take_flushing_first[OF tf assms] kb unfolding True by (simp add: recordsFor_def)
  next
    case False
    show ?thesis
      using take_flushing_other[OF tf False] kb False by (simp add: recordsFor_def)
  qed
  have one: "recordsFor k' [b\<lparr>attempts := n, state := st\<rparr>] = recordsFor k' [b]" for st n
    by (simp add: recordsFor_def)
  show ?thesis
    by (simp add: attemptDone_def tf Let_def recordsFor_countAttempt recordsFor_admit split one
        split: attempt_outcome.splits option.splits)
qed

lemma attemptDone_fields [simp]:
  "openBatches (attemptDone E k outcome s) = openBatches s"
  "nextId (attemptDone E k outcome s) = nextId s"
  by (simp_all add: attemptDone_def Let_def split: option.splits attempt_outcome.splits prod.splits)

lemma states_start_first:
  "list_all (\<lambda>b. state b = Ready \<or> state b = Flushing) bs \<Longrightarrow>
   list_all (\<lambda>b. state b = Ready \<or> state b = Flushing) (start_first k bs)"
  by (induction bs) auto

lemma states_admit:
  "list_all (\<lambda>b. state b = Ready \<or> state b = Flushing) bs \<Longrightarrow>
   list_all (\<lambda>b. state b = Ready \<or> state b = Flushing) (admit k bs)"
  by (simp add: admit_def states_start_first)

lemma states_schedule:
  "list_all (\<lambda>b. state b = Ready \<or> state b = Flushing) (dispatched s) \<Longrightarrow>
   list_all (\<lambda>b. state b = Ready \<or> state b = Flushing) (dispatched (schedule b s))"
  by (simp add: schedule_def states_admit)

lemma states_handOff:
  "list_all (\<lambda>b. state b = Ready \<or> state b = Flushing) (dispatched s) \<Longrightarrow>
   list_all (\<lambda>b. state b = Ready \<or> state b = Flushing) (dispatched (handOff bs s))"
  unfolding handOff_def by (induction bs arbitrary: s) (simp_all add: states_schedule)

lemma states_countAttempt_all:
  "list_all (\<lambda>b. state b = Ready \<or> state b = Flushing) bs \<Longrightarrow>
   list_all (\<lambda>b. state b = Ready \<or> state b = Flushing) (countAttempt k bs)"
  by (induction bs) (auto simp: countAttempt_def)

lemma consistent_schedule:
  assumes "consistent s"
  shows "consistent (schedule b s)"
  using assms by (simp add: consistent_def singleFlight_schedule states_schedule)

lemma consistent_handOff: "consistent s \<Longrightarrow> consistent (handOff bs s)"
  unfolding handOff_def by (induction bs arbitrary: s) (simp_all add: consistent_schedule)

lemma consistent_attemptDone:
  assumes "consistent s"
  shows "consistent (attemptDone E k outcome s)"
proof -
  have sf: "\<And>k'. singleFlight k' (dispatched s)" using assms by (simp add: consistent_def)
  have a: "\<And>k'. singleFlight k' (dispatched (attemptDone E k outcome s))"
    using sf by (rule singleFlight_attemptDone)
  have st: "list_all (\<lambda>b. state b = Ready \<or> state b = Flushing) (dispatched s)"
    using assms by (simp add: consistent_def)
  have d: "list_all (\<lambda>b. state b = Ready \<or> state b = Flushing)
             (dispatched (attemptDone E k outcome s))"
  proof (cases "take_flushing k (dispatched s)")
    case None
    then show ?thesis using st by (simp add: attemptDone_def)
  next
    case (Some p)
    obtain b rest where p: "p = (b, rest)" by (cases p)
    have tf: "take_flushing k (dispatched s) = Some (b, rest)" using Some p by simp
    have "list_all (\<lambda>b. state b = Ready \<or> state b = Flushing) rest"
      using take_flushing_set[OF tf] st by (auto simp: list_all_iff)
    then have "list_all (\<lambda>b. state b = Ready \<or> state b = Flushing) (admit k rest)"
      by (rule states_admit)
    then show ?thesis
      using states_countAttempt_all[OF st, of k]
      by (simp add: attemptDone_def tf Let_def split: attempt_outcome.splits option.splits)
  qed
  have r: "list_all (\<lambda>b. state b = Delivered \<or> state b = ExhaustedFailed)
             (reported (attemptDone E k outcome s))"
    using assms
    by (auto simp: consistent_def attemptDone_def Let_def
        split: attempt_outcome.splits option.splits if_splits)
  show ?thesis using assms a d r by (simp add: consistent_def)
qed

lemma filter_key_filter:
  "filter (\<lambda>b. destinationKey b = k) (filter Q bs) = filter Q (filter (\<lambda>b. destinationKey b = k) bs)"
  by (induction bs) auto

lemma distinct_key_cases:
  "distinct (map destinationKey bs) \<Longrightarrow>
   filter (\<lambda>b. destinationKey b = k) bs
     = (case find (\<lambda>b. destinationKey b = k) bs of None \<Rightarrow> [] | Some b0 \<Rightarrow> [b0])"
proof (induction bs)
  case Nil
  then show ?case by simp
next
  case (Cons b bs)
  show ?case
  proof (cases "destinationKey b = k")
    case True
    then have "k \<notin> destinationKey ` set bs" using Cons.prems by auto
    then have "filter (\<lambda>b. destinationKey b = k) bs = []" by (auto simp: filter_empty_conv)
    then show ?thesis using True by simp
  next
    case False
    then show ?thesis using Cons by simp
  qed
qed

lemma recordsFor_partition:
  assumes "distinct (map destinationKey bs)"
  shows "recordsFor k (filter Q bs) @ recordsFor k (filter (\<lambda>b. \<not> Q b) bs) = recordsFor k bs"
proof -
  define ks where "ks = filter (\<lambda>b. destinationKey b = k) bs"
  have c: "ks = [] \<or> (\<exists>b0. ks = [b0])"
    unfolding ks_def distinct_key_cases[OF assms, of k] by (simp split: option.splits)
  have "concat (map records (filter Q ks)) @ concat (map records (filter (\<lambda>b. \<not> Q b) ks))
          = concat (map records ks)"
    using c by auto
  then show ?thesis
    unfolding recordsFor_def filter_key_filter ks_def .
qed

lemma consistent_flush:
  assumes "consistent s"
  shows "consistent (handOff (filter Q (openBatches s))
           (s\<lparr>openBatches := filter (\<lambda>b. \<not> Q b) (openBatches s)\<rparr>))"
proof -
  have "consistent (s\<lparr>openBatches := filter (\<lambda>b. \<not> Q b) (openBatches s)\<rparr>)"
    using assms by (auto simp: consistent_def distinct_map_filter list_all_iff)
  then show ?thesis by (rule consistent_handOff)
qed

lemma recordsInOrder_flush:
  assumes "consistent s"
  shows "recordsInOrder k (handOff (filter Q (openBatches s))
           (s\<lparr>openBatches := filter (\<lambda>b. \<not> Q b) (openBatches s)\<rparr>)) = recordsInOrder k s"
proof -
  have d: "distinct (map destinationKey (openBatches s))" using assms by (simp add: consistent_def)
  show ?thesis
    using recordsFor_partition[OF d, of k Q]
    by (simp add: recordsInOrder_def recordsFor_handOff)
qed

lemma find_Some_holds: "find P xs = Some x \<Longrightarrow> P x \<and> x \<in> set xs"
  by (induction xs) (auto split: if_splits)

lemma filter_other_key:
  "filter (\<lambda>b. destinationKey b = k') (filter (\<lambda>b. destinationKey b \<noteq> k) bs)
     = (if k' = k then [] else filter (\<lambda>b. destinationKey b = k') bs)"
  by (induction bs) auto

lemma consistent_nextId [simp]: "consistent (s\<lparr>nextId := n\<rparr>) = consistent s"
  by (simp add: consistent_def)

lemma recordsInOrder_nextId [simp]: "recordsInOrder k (s\<lparr>nextId := n\<rparr>) = recordsInOrder k s"
  by (simp add: recordsInOrder_def)

lemma appendRecord_batch:
  assumes "consistent s"
    and b_def: "b = (case find (\<lambda>b. destinationKey b = k) (openBatches s) of
                 None \<Rightarrow> \<lparr>destinationKey = k, batchPolicy = pol, records = [r],
                           state = Accumulating, createdAt = now,
                           flushDeadline = now + maxWaitTimeMs pol, attempts = 0\<rparr>
               | Some b0 \<Rightarrow> b0\<lparr>records := records b0 @ [r]\<rparr>)"
  shows "destinationKey b = k" and "state b = Accumulating"
    and "records b = recordsFor k (openBatches s) @ [r]"
proof -
  have d: "distinct (map destinationKey (openBatches s))"
    and acc: "list_all (\<lambda>b. state b = Accumulating) (openBatches s)"
    using assms(1) by (simp_all add: consistent_def)
  show "destinationKey b = k"
    unfolding b_def by (auto split: option.splits dest: find_Some_holds)
  show "state b = Accumulating"
    unfolding b_def using acc by (auto split: option.splits dest: find_Some_holds simp: list_all_iff)
  show "records b = recordsFor k (openBatches s) @ [r]"
    unfolding b_def recordsFor_def distinct_key_cases[OF d, of k]
    by (simp split: option.splits)
qed

lemma consistent_appendRecord:
  assumes "consistent s"
  shows "consistent (appendRecord now k pol r s)"
proof -
  define b where "b = (case find (\<lambda>b. destinationKey b = k) (openBatches s) of
                 None \<Rightarrow> \<lparr>destinationKey = k, batchPolicy = pol, records = [r],
                           state = Accumulating, createdAt = now,
                           flushDeadline = now + maxWaitTimeMs pol, attempts = 0\<rparr>
               | Some b0 \<Rightarrow> b0\<lparr>records := records b0 @ [r]\<rparr>)"
  define others where "others = filter (\<lambda>b. destinationKey b \<noteq> k) (openBatches s)"
  have kb: "destinationKey b = k" and sb: "state b = Accumulating"
    using appendRecord_batch[OF assms b_def] by simp_all
  have o: "consistent (s\<lparr>openBatches := others\<rparr>)"
    using assms unfolding others_def
    by (auto simp: consistent_def distinct_map_filter list_all_iff)
  have ready: "consistent (schedule b (s\<lparr>openBatches := others\<rparr>))"
    using o by (rule consistent_schedule)
  have "k \<notin> destinationKey ` set others" unfolding others_def by auto
  then have stay: "consistent (s\<lparr>openBatches := others @ [b]\<rparr>)"
    using o kb sb by (auto simp: consistent_def)
  show ?thesis
    using ready stay unfolding appendRecord_def Let_def b_def others_def by simp
qed

lemma recordsInOrder_appendRecord:
  assumes "consistent s"
  shows "recordsInOrder k' (appendRecord now k pol r s)
           = recordsInOrder k' s @ (if k' = k then [r] else [])"
proof -
  define b where "b = (case find (\<lambda>b. destinationKey b = k) (openBatches s) of
                 None \<Rightarrow> \<lparr>destinationKey = k, batchPolicy = pol, records = [r],
                           state = Accumulating, createdAt = now,
                           flushDeadline = now + maxWaitTimeMs pol, attempts = 0\<rparr>
               | Some b0 \<Rightarrow> b0\<lparr>records := records b0 @ [r]\<rparr>)"
  define others where "others = filter (\<lambda>b. destinationKey b \<noteq> k) (openBatches s)"
  have kb: "destinationKey b = k"
    and rb: "records b = recordsFor k (openBatches s) @ [r]"
    using appendRecord_batch[OF assms b_def] by simp_all
  have one: "recordsFor k' [b] = (if k' = k then recordsFor k (openBatches s) @ [r] else [])"
    using kb rb by (simp add: recordsFor_def)
  have oth: "recordsFor k' others = (if k' = k then [] else recordsFor k' (openBatches s))"
    unfolding others_def recordsFor_def filter_other_key by simp
  have ready: "recordsInOrder k' (schedule b (s\<lparr>openBatches := others\<rparr>))
                 = recordsInOrder k' s @ (if k' = k then [r] else [])"
    by (simp add: recordsInOrder_def recordsFor_schedule one oth)
  have stay: "recordsInOrder k' (s\<lparr>openBatches := others @ [b]\<rparr>)
                 = recordsInOrder k' s @ (if k' = k then [r] else [])"
    by (simp add: recordsInOrder_def one oth)
  have eq: "appendRecord now k pol r s
              = (if isReady now b then schedule b (s\<lparr>openBatches := others\<rparr>)
                 else s\<lparr>openBatches := others @ [b]\<rparr>)"
    unfolding appendRecord_def Let_def b_def others_def by simp
  show ?thesis
  proof (cases "isReady now b")
    case True
    then show ?thesis unfolding eq using ready by (simp only: if_True)
  next
    case False
    then show ?thesis unfolding eq using stay by (simp only: if_False)
  qed
qed

lemma consistent_step: "consistent s \<Longrightarrow> consistent (step E ev s)"
proof (cases ev)
  case (Enqueue now c)
  assume "consistent s"
  then show ?thesis
    using Enqueue by (simp add: enqueue_def Let_def consistent_appendRecord)
next
  case (Tick now)
  assume "consistent s"
  then show ?thesis using Tick by (simp add: tick_def consistent_flush)
next
  case (ExecutionComplete e)
  assume "consistent s"
  then show ?thesis
    using ExecutionComplete by (simp add: forceFlushForExecution_def consistent_flush)
next
  case (AttemptDone k outcome)
  assume "consistent s"
  then show ?thesis using AttemptDone by (simp add: consistent_attemptDone)
qed

lemma recordsInOrder_step:
  assumes "consistent s"
  shows "recordsInOrder k (step E ev s)
           = recordsInOrder k s @ filter (\<lambda>r. recordKey E r = k) (enqueued E [ev] s)"
proof (cases ev)
  case (Enqueue now c)
  then show ?thesis
    using assms by (simp add: enqueue_def Let_def recordsInOrder_appendRecord)
next
  case (Tick now)
  then show ?thesis using assms by (simp add: tick_def recordsInOrder_flush)
next
  case (ExecutionComplete e)
  then show ?thesis
    using assms by (simp add: forceFlushForExecution_def recordsInOrder_flush)
next
  case (AttemptDone k' outcome)
  have "singleFlight k' (dispatched s)" using assms by (simp add: consistent_def)
  then show ?thesis
    using AttemptDone recordsFor_attemptDone[of k' s k E outcome]
    by (simp add: recordsInOrder_def)
qed

lemma enqueued_Cons:
  "enqueued E (ev # evs) s = enqueued E [ev] s @ enqueued E evs (step E ev s)"
  by (cases ev) (simp_all split: sum.splits)

lemma consistent_run: "consistent s \<Longrightarrow> consistent (run E evs s)"
  by (induction evs arbitrary: s) (simp_all add: consistent_step)

lemma recordsInOrder_run:
  "consistent s \<Longrightarrow>
   recordsInOrder k (run E evs s)
     = recordsInOrder k s @ filter (\<lambda>r. recordKey E r = k) (enqueued E evs s)"
proof (induction evs arbitrary: s)
  case Nil
  then show ?case by simp
next
  case (Cons ev evs)
  have "recordsInOrder k (run E (ev # evs) s)
          = recordsInOrder k (step E ev s)
              @ filter (\<lambda>r. recordKey E r = k) (enqueued E evs (step E ev s))"
    using Cons.IH[OF consistent_step[OF Cons.prems]] by simp
  also have "\<dots> = recordsInOrder k s
              @ filter (\<lambda>r. recordKey E r = k) (enqueued E [ev] s)
              @ filter (\<lambda>r. recordKey E r = k) (enqueued E evs (step E ev s))"
    by (simp add: recordsInOrder_step[OF Cons.prems])
  also have "\<dots> = recordsInOrder k s
              @ filter (\<lambda>r. recordKey E r = k) (enqueued E (ev # evs) s)"
    by (simp add: enqueued_Cons[of E ev evs s])
  finally show ?case .
qed

lemma consistent_init: "consistent init"
  by (simp add: consistent_def init_def singleFlight_def)

lemma recordsInOrder_init: "recordsInOrder k init = []"
  by (simp add: recordsInOrder_def init_def recordsFor_def)












lemmas demo_simps =
  demoEnv_def demoCall_def init_def enqueue_def appendRecord_def schedule_def admit_def
  is_flushing_def isReady_def expired_def sizeLimit_def callPolicy_def newRecord_def
  recordKey_def attemptDone_def countAttempt_def tick_def forceFlushForExecution_def
  holdsExecution_def handOff_def Let_def


lemma demo_run6:
  "run demoEnv [Enqueue 0 (demoCall 7 10), Enqueue 1 (demoCall 7 11),
                Enqueue 2 (demoCall 8 12),
                AttemptDone (''object-storage'', ''bucket'') Success,
                ExecutionComplete 8,
                AttemptDone (''object-storage'', ''bucket'') Success] init
   = \<lparr>openBatches = [],
      dispatched = [],
      reported =
        [\<lparr>destinationKey = (''object-storage'', ''bucket''),
          batchPolicy = \<lparr>maxBatchSize = 2, maxWaitTimeMs = 5000, deliveryMode = Batched\<rparr>,
          records = [newRecord 0 0 (demoCall 7 10), newRecord 1 1 (demoCall 7 11)],
          state = Delivered, createdAt = 0, flushDeadline = 5000, attempts = 1\<rparr>,
         \<lparr>destinationKey = (''object-storage'', ''bucket''),
          batchPolicy = \<lparr>maxBatchSize = 2, maxWaitTimeMs = 5000, deliveryMode = Batched\<rparr>,
          records = [newRecord 2 2 (demoCall 8 12)],
          state = Delivered, createdAt = 2, flushDeadline = 5002, attempts = 1\<rparr>],
      nextId = 3\<rparr>"
  by (simp add: demo_simps)

lemma demo_enqueued6:
  "enqueued demoEnv [Enqueue 0 (demoCall 7 10), Enqueue 1 (demoCall 7 11),
                Enqueue 2 (demoCall 8 12),
                AttemptDone (''object-storage'', ''bucket'') Success,
                ExecutionComplete 8,
                AttemptDone (''object-storage'', ''bucket'') Success] init
   = [newRecord 0 0 (demoCall 7 10), newRecord 1 1 (demoCall 7 11), newRecord 2 2 (demoCall 8 12)]"
  by (simp add: demo_simps)

text \<open>
  Claim C1. In every run of the subsystem from its initial state and for every
  Destination Key, the records of the key's reported Batches in report order, followed
  by those of its Batches at the Dispatcher in hand-off order, followed by those of its
  open Batch, are the records of the accepted enqueue calls for the key in call order:
  no Batch reorders its records, and the Batches of a key are delivered in the order of
  their creation. So when nothing of the key is pending and none of its Batches ended
  Exhausted-Failed, the delivered Batches' records, concatenated in delivery order, are
  the enqueued records in enqueue order.
\<close>

theorem delivery_keeps_enqueue_order:
  "recordsFor k (reported (run E evs init)) @ recordsFor k (dispatched (run E evs init))
       @ recordsFor k (openBatches (run E evs init))
     = filter (\<lambda>r. recordKey E r = k) (enqueued E evs init)
   \<and> (recordsFor k (dispatched (run E evs init)) = []
        \<and> recordsFor k (openBatches (run E evs init)) = []
        \<and> filter (\<lambda>b. destinationKey b = k \<and> state b = ExhaustedFailed)
              (reported (run E evs init)) = []
      \<longrightarrow> deliveredFor k (run E evs init)
            = filter (\<lambda>r. recordKey E r = k) (enqueued E evs init))"
proof -
  let ?s = "run E evs init"
  have c: "consistent ?s" using consistent_init by (rule consistent_run)
  have all: "recordsInOrder k ?s = filter (\<lambda>r. recordKey E r = k) (enqueued E evs init)"
    using recordsInOrder_run[OF consistent_init, of k E evs] by (simp add: recordsInOrder_init)
  have first: "recordsFor k (reported ?s) @ recordsFor k (dispatched ?s)
                 @ recordsFor k (openBatches ?s)
               = filter (\<lambda>r. recordKey E r = k) (enqueued E evs init)"
    using all by (simp add: recordsInOrder_def)
  have second: "deliveredFor k ?s = filter (\<lambda>r. recordKey E r = k) (enqueued E evs init)"
    if d: "recordsFor k (dispatched ?s) = []" and o: "recordsFor k (openBatches ?s) = []"
      and f: "filter (\<lambda>b. destinationKey b = k \<and> state b = ExhaustedFailed) (reported ?s) = []"
  proof -
    have t: "list_all (\<lambda>b. state b = Delivered \<or> state b = ExhaustedFailed) (reported ?s)"
      using c by (simp add: consistent_def)
    have "filter (\<lambda>b. destinationKey b = k \<and> state b = Delivered) (reported ?s)
            = filter (\<lambda>b. destinationKey b = k) (reported ?s)"
      using t f by (auto simp: list_all_iff filter_empty_conv intro!: filter_cong)
    then have "deliveredFor k ?s = recordsFor k (reported ?s)"
      by (simp add: deliveredFor_def recordsFor_def)
    then show ?thesis using first d o by simp
  qed
  show ?thesis using first second by blast
qed

theorem delivery_keeps_enqueue_order_witness:
  "deliveredFor (''object-storage'', ''bucket'')
     (run demoEnv [Enqueue 0 (demoCall 7 10), Enqueue 1 (demoCall 7 11),
                Enqueue 2 (demoCall 8 12),
                AttemptDone (''object-storage'', ''bucket'') Success,
                ExecutionComplete 8,
                AttemptDone (''object-storage'', ''bucket'') Success] init)
   = [newRecord 0 0 (demoCall 7 10), newRecord 1 1 (demoCall 7 11), newRecord 2 2 (demoCall 8 12)]
   \<and> map (\<lambda>b. map payload (records b))
        (reported (run demoEnv [Enqueue 0 (demoCall 7 10), Enqueue 1 (demoCall 7 11),
                Enqueue 2 (demoCall 8 12),
                AttemptDone (''object-storage'', ''bucket'') Success,
                ExecutionComplete 8,
                AttemptDone (''object-storage'', ''bucket'') Success] init))
      = [[10, 11], [12]]"
  using delivery_keeps_enqueue_order
    [of "(''object-storage'', ''bucket'')" demoEnv
        "[Enqueue 0 (demoCall 7 10), Enqueue 1 (demoCall 7 11),
                Enqueue 2 (demoCall 8 12),
                AttemptDone (''object-storage'', ''bucket'') Success,
                ExecutionComplete 8,
                AttemptDone (''object-storage'', ''bucket'') Success]"]
  unfolding demo_run6 demo_enqueued6
  by (simp add: recordsFor_def recordKey_def newRecord_def demoCall_def demoEnv_def)



end
